theory Spec2Isabelle
  imports Complex_Main
begin

section \<open>Array values\<close>

text \<open>
  The arrays of \<^verbatim>\<open>examples/dev/triangle_edge.py\<close> hold float64 numbers. A number is
  modelled as an exact real or one of the three IEEE special values, so that a division
  by a zero norm is a value of the model as it is in NumPy (which warns and continues,
  it does not raise). Rounding, overflow, underflow and the sign of zero are not
  modelled: arithmetic on finite numbers is exact, and a zero is the positive zero (the
  only divisors of the source are norms, the square root of a sum of squares).
\<close>

datatype fl = Fin real | PInf | NInf | NaN

fun fl_neg :: "fl \<Rightarrow> fl" where
  "fl_neg (Fin x) = Fin (- x)"
| "fl_neg PInf = NInf"
| "fl_neg NInf = PInf"
| "fl_neg NaN = NaN"

fun fl_add :: "fl \<Rightarrow> fl \<Rightarrow> fl" where
  "fl_add (Fin x) (Fin y) = Fin (x + y)"
| "fl_add NaN _ = NaN"
| "fl_add _ NaN = NaN"
| "fl_add PInf NInf = NaN"
| "fl_add NInf PInf = NaN"
| "fl_add PInf _ = PInf"
| "fl_add _ PInf = PInf"
| "fl_add NInf _ = NInf"
| "fl_add _ NInf = NInf"

definition fl_sub :: "fl \<Rightarrow> fl \<Rightarrow> fl" where
  "fl_sub a b = fl_add a (fl_neg b)"

definition inf_of_sign :: "bool \<Rightarrow> fl" where
  "inf_of_sign positive = (if positive then PInf else NInf)"

fun fl_mul :: "fl \<Rightarrow> fl \<Rightarrow> fl" where
  "fl_mul (Fin x) (Fin y) = Fin (x * y)"
| "fl_mul NaN _ = NaN"
| "fl_mul _ NaN = NaN"
| "fl_mul PInf (Fin y) = (if y = 0 then NaN else inf_of_sign (0 < y))"
| "fl_mul NInf (Fin y) = (if y = 0 then NaN else inf_of_sign (y < 0))"
| "fl_mul (Fin x) PInf = (if x = 0 then NaN else inf_of_sign (0 < x))"
| "fl_mul (Fin x) NInf = (if x = 0 then NaN else inf_of_sign (x < 0))"
| "fl_mul PInf PInf = PInf"
| "fl_mul PInf NInf = NInf"
| "fl_mul NInf PInf = NInf"
| "fl_mul NInf NInf = PInf"

fun fl_div :: "fl \<Rightarrow> fl \<Rightarrow> fl" where
  "fl_div (Fin x) (Fin y) =
     (if y = 0 then (if x = 0 then NaN else inf_of_sign (0 < x)) else Fin (x / y))"
| "fl_div NaN _ = NaN"
| "fl_div _ NaN = NaN"
| "fl_div (Fin x) PInf = Fin 0"
| "fl_div (Fin x) NInf = Fin 0"
| "fl_div PInf (Fin y) = inf_of_sign (0 \<le> y)"
| "fl_div NInf (Fin y) = inf_of_sign (y < 0)"
| "fl_div PInf PInf = NaN"
| "fl_div PInf NInf = NaN"
| "fl_div NInf PInf = NaN"
| "fl_div NInf NInf = NaN"

fun fl_sqrt :: "fl \<Rightarrow> fl" where
  "fl_sqrt (Fin x) = (if x < 0 then NaN else Fin (sqrt x))"
| "fl_sqrt PInf = PInf"
| "fl_sqrt NInf = NaN"
| "fl_sqrt NaN = NaN"

fun is_finite :: "fl \<Rightarrow> bool" where
  "is_finite (Fin x) = True"
| "is_finite PInf = False"
| "is_finite NInf = False"
| "is_finite NaN = False"

text \<open>A row of a \<open>(N, 2)\<close> array is a pair; a row of a \<open>(N, 2, 2)\<close> array is an
  (origin, direction) record, \<open>vec[i, 0]\<close> and \<open>vec[i, 1]\<close>.\<close>

type_synonym vec2 = "fl \<times> fl"

type_synonym vrec = "vec2 \<times> vec2"

definition pt :: "real \<times> real \<Rightarrow> vec2" where
  "pt p = (Fin (fst p), Fin (snd p))"

definition vadd :: "vec2 \<Rightarrow> vec2 \<Rightarrow> vec2" where
  "vadd u v = (fl_add (fst u) (fst v), fl_add (snd u) (snd v))"

definition vsub :: "vec2 \<Rightarrow> vec2 \<Rightarrow> vec2" where
  "vsub u v = (fl_sub (fst u) (fst v), fl_sub (snd u) (snd v))"

definition vneg :: "vec2 \<Rightarrow> vec2" where
  "vneg u = (fl_neg (fst u), fl_neg (snd u))"

definition vscale :: "vec2 \<Rightarrow> fl \<Rightarrow> vec2" where
  "vscale u c = (fl_mul (fst u) c, fl_mul (snd u) c)"

definition vdiv :: "vec2 \<Rightarrow> fl \<Rightarrow> vec2" where
  "vdiv u c = (fl_div (fst u) c, fl_div (snd u) c)"

definition vdot :: "vec2 \<Rightarrow> vec2 \<Rightarrow> fl" where
  "vdot u v = fl_add (fl_mul (fst u) (fst v)) (fl_mul (snd u) (snd v))"

text \<open>\<open>np.linalg.norm\<close> of a 2-vector: the square root of the sum of the squares.\<close>

definition linalg_norm :: "vec2 \<Rightarrow> fl" where
  "linalg_norm u = fl_sqrt (vdot u u)"

definition vfinite :: "vec2 \<Rightarrow> bool" where
  "vfinite u = (is_finite (fst u) \<and> is_finite (snd u))"

text \<open>The quarter turn \<open>(x, y) \<mapsto> (- y, x)\<close>.\<close>

definition rot90 :: "vec2 \<Rightarrow> vec2" where
  "rot90 u = (fl_neg (snd u), fst u)"

definition rec_finite :: "vrec \<Rightarrow> bool" where
  "rec_finite r = (vfinite (fst r) \<and> vfinite (snd r))"

definition zero_vec :: vec2 where
  "zero_vec = (Fin 0, Fin 0)"

section \<open>Errors and indexing\<close>

text \<open>\<open>IndexError\<close> is what NumPy raises on an index out of range.
  \<open>ZeroLengthSegmentError\<close> and \<open>DegeneratePathError\<close> are the errors the specification
  names; no statement of the source file raises either.\<close>

datatype error = IndexError | ValueError | ZeroLengthSegmentError | DegeneratePathError

text \<open>Reading row \<open>i\<close> of an array of \<open>n\<close> rows: \<open>0 .. n - 1\<close> from the front,
  \<open>- n .. - 1\<close> from the back, anything else is out of range.\<close>

definition py_get :: "'a list \<Rightarrow> int \<Rightarrow> error + 'a" where
  "py_get xs i =
     (if 0 \<le> i \<and> i < int (length xs) then Inr (xs ! nat i)
      else if - int (length xs) \<le> i \<and> i < 0 then Inr (xs ! nat (int (length xs) + i))
      else Inl IndexError)"

text \<open>\<open>np.empty\<close>: an array whose cells hold whatever the memory held; the contents are
  a parameter of every function that allocates one.\<close>

definition np_empty :: "(nat \<Rightarrow> 'a) \<Rightarrow> nat \<Rightarrow> 'a list" where
  "np_empty g n = map g [0..<n]"

section \<open>Column operations on (N, 2, 2) arrays\<close>

definition dirs :: "vrec list \<Rightarrow> vec2 list" where
  "dirs arr = map snd arr"

text \<open>\<open>arr[:, 0] = ps\<close> and \<open>arr[:, 1] = ds\<close>, for a right-hand side of the same length.\<close>

definition set_origins :: "vec2 list \<Rightarrow> vrec list \<Rightarrow> vrec list" where
  "set_origins ps arr = map2 (\<lambda>p r. (p, snd r)) ps arr"

definition set_dirs :: "vec2 list \<Rightarrow> vrec list \<Rightarrow> vrec list" where
  "set_dirs ds arr = map2 (\<lambda>d r. (fst r, d)) ds arr"

text \<open>\<open>arr[:-1, 1] = ds\<close>: every row but the last gets a new direction.\<close>

definition set_dirs_butlast :: "vec2 list \<Rightarrow> vrec list \<Rightarrow> vrec list" where
  "set_dirs_butlast ds arr = set_dirs ds (butlast arr) @ drop (length arr - 1) arr"

text \<open>\<open>arr[i, 1] = d\<close> for an index in range.\<close>

definition set_dir_at :: "nat \<Rightarrow> vec2 \<Rightarrow> vrec list \<Rightarrow> vrec list" where
  "set_dir_at i d arr = arr[i := (fst (arr ! i), d)]"

text \<open>\<open>arr[:, 1] *= c\<close> and \<open>arr[:, 0] += ds\<close>.\<close>

definition scale_dirs :: "fl \<Rightarrow> vrec list \<Rightarrow> vrec list" where
  "scale_dirs c arr = map (\<lambda>r. (fst r, vscale (snd r) c)) arr"

definition add_origins :: "vec2 list \<Rightarrow> vrec list \<Rightarrow> vrec list" where
  "add_origins ds arr = map2 (\<lambda>d r. (vadd (fst r) d, snd r)) ds arr"

text \<open>\<open>np.roll(xs, 1, axis=0)\<close>: the last row moves to the front.\<close>

definition roll1 :: "'a list \<Rightarrow> 'a list" where
  "roll1 xs = (if xs = [] then [] else last xs # butlast xs)"

section \<open>The generators of \<^verbatim>\<open>triangle_edge.py\<close>\<close>

subsection \<open>generate_order_vectors\<close>

text \<open>
  \<^verbatim>\<open>
  n = path_[1:] - path_[:-1]
  norm = np.linalg.norm(n, axis=1, keepdims=True)
  normals = n / norm
  vec = np.empty((path_.shape[0], 2, 2))
  vec[:, 0] = path_
  vec[:-1, 1] = normals
  if closed:
      vec[-1, 1] = (path_[0] - path_[-1]) / np.linalg.norm(path_[-1] - path_[0])
  else:
      vec[-1, 1] = -vec[-2, 1]
  return vec
  \<close>
  \<open>path_[0]\<close> raises on an empty path, \<open>vec[-2, 1]\<close> on a path of fewer than two
  points. The division never raises.
\<close>

definition segment_normals :: "vec2 list \<Rightarrow> vec2 list" where
  "segment_normals path =
     (let n = map2 vsub (tl path) (butlast path);
          norms = map linalg_norm n
      in map2 vdiv n norms)"

definition generate_order_vectors ::
  "(nat \<Rightarrow> vrec) \<Rightarrow> vec2 list \<Rightarrow> bool \<Rightarrow> error + vrec list" where
  "generate_order_vectors g path is_closed =
     (let normals = segment_normals path;
          N = length path;
          vec = np_empty g N;
          vec = set_origins path vec;
          vec = set_dirs_butlast normals vec
      in if is_closed then
           (if N = 0 then Inl IndexError
            else Inr (set_dir_at (N - 1)
                   (vdiv (vsub (path ! 0) (path ! (N - 1)))
                         (linalg_norm (vsub (path ! (N - 1)) (path ! 0)))) vec))
         else
           (if N < 2 then Inl IndexError
            else Inr (set_dir_at (N - 1) (vneg (snd (vec ! (N - 2)))) vec)))"

subsection \<open>Arrays passed by reference\<close>

text \<open>
  \<open>generate_miter_helper_vectors\<close> and \<open>generate_orthogonal_vectors\<close> update arrays
  in place (\<open>*=\<close>, \<open>+=\<close>, slice assignment) after \<open>.copy()\<close>. Their model keeps the
  arrays in a store, a list of arrays addressed by position: the argument is an address,
  \<open>.copy()\<close> appends a new array, an in-place operation replaces the array at its
  address, and the function returns the contents of its result with the final store.
\<close>

type_synonym heap = "vrec list list"

definition np_copy :: "nat \<Rightarrow> heap \<Rightarrow> nat \<times> heap" where
  "np_copy a h = (length h, h @ [h ! a])"

subsection \<open>generate_miter_helper_vectors\<close>

text \<open>
  \<^verbatim>\<open>
  vec2 = normal_vector.copy()
  vec2[:, 1] *= 0.5
  vec3 = vec2.copy()
  vec3[:, 1] *= -1
  vec3[:, 1] = np.roll(vec3[:, 1], 1, axis=0)
  vec3[:, 0] += vec2[:, 1]
  return np.concatenate([vec2, vec3], axis=0)
  \<close>
\<close>

definition generate_miter_helper_vectors :: "nat \<Rightarrow> heap \<Rightarrow> vrec list \<times> heap" where
  "generate_miter_helper_vectors normal_vector h =
     (let (vec2, h) = np_copy normal_vector h;
          h = h[vec2 := scale_dirs (Fin (1/2)) (h ! vec2)];
          (vec3, h) = np_copy vec2 h;
          h = h[vec3 := scale_dirs (Fin (- 1)) (h ! vec3)];
          h = h[vec3 := set_dirs (roll1 (dirs (h ! vec3))) (h ! vec3)];
          h = h[vec3 := add_origins (dirs (h ! vec2)) (h ! vec3)]
      in (h ! vec2 @ h ! vec3, h))"

subsection \<open>generate_orthogonal_vectors\<close>

text \<open>
  \<^verbatim>\<open>
  vec2 = normal_vector.copy()
  vec2[:, 1] *= 0.5
  vec5 = vec2.copy()
  vec5[:, 0] += vec2[:, 1]
  vec5[:, 1, 0] = -vec2[:, 1, 1]
  vec5[:, 1, 1] = vec2[:, 1, 0]
  return vec5
  \<close>
\<close>

definition set_dirs_x :: "fl list \<Rightarrow> vrec list \<Rightarrow> vrec list" where
  "set_dirs_x xs arr = map2 (\<lambda>x r. (fst r, (x, snd (snd r)))) xs arr"

definition set_dirs_y :: "fl list \<Rightarrow> vrec list \<Rightarrow> vrec list" where
  "set_dirs_y ys arr = map2 (\<lambda>y r. (fst r, (fst (snd r), y))) ys arr"

definition generate_orthogonal_vectors :: "nat \<Rightarrow> heap \<Rightarrow> vrec list \<times> heap" where
  "generate_orthogonal_vectors normal_vector h =
     (let (vec2, h) = np_copy normal_vector h;
          h = h[vec2 := scale_dirs (Fin (1/2)) (h ! vec2)];
          (vec5, h) = np_copy vec2 h;
          h = h[vec5 := add_origins (dirs (h ! vec2)) (h ! vec5)];
          h = h[vec5 := set_dirs_x (map (\<lambda>d. fl_neg (snd d)) (dirs (h ! vec2))) (h ! vec5)];
          h = h[vec5 := set_dirs_y (map fst (dirs (h ! vec2))) (h ! vec5)]
      in (h ! vec5, h))"

subsection \<open>generate_mitter_vectors\<close>

text \<open>
  \<^verbatim>\<open>
  vec_points = np.empty((mesh[0].shape[0], 2, 2))
  vec_points[:, 0] = mesh[0]
  vec_points[:, 1] = mesh[1]
  return vec_points
  \<close>
  The right-hand side of a slice assignment is broadcast: an array of one row fills every
  row, any other length that differs is an error.
\<close>

definition broadcast_rows :: "nat \<Rightarrow> 'a list \<Rightarrow> error + 'a list" where
  "broadcast_rows n xs =
     (if length xs = n then Inr xs
      else if length xs = 1 then Inr (replicate n (xs ! 0))
      else Inl ValueError)"

definition generate_mitter_vectors ::
  "(nat \<Rightarrow> vrec) \<Rightarrow> vec2 list \<Rightarrow> vec2 list \<Rightarrow> error + vrec list" where
  "generate_mitter_vectors g mesh0 mesh1 =
     (let vec_points = np_empty g (length mesh0);
          vec_points = set_origins mesh0 vec_points
      in case broadcast_rows (length mesh0) mesh1 of
           Inl e \<Rightarrow> Inl e
         | Inr ds \<Rightarrow> Inr (set_dirs ds vec_points))"

subsection \<open>generate_edge_triangle_borders and generate_face_triangle_borders\<close>

text \<open>
  \<^verbatim>\<open>
  res = np.empty((len(triangles)*3, 2, 2), dtype=centers.dtype)
  for i, triangle in enumerate(triangles):
      a, b, c = triangle
      a1 = centers[a] + offsets[a]
      b1 = centers[b] + offsets[b]
      c1 = centers[c] + offsets[c]
      res[i * 3, 0] = a1
      res[i * 3, 1] = (b1 - a1)
      res[i * 3 + 1, 0] = b1
      res[i * 3 + 1, 1] = (c1 - b1)
      res[i * 3 + 2, 0] = c1
      res[i * 3 + 2, 1] = (a1 - c1)
  return res
  \<close>
  The face variant is the same loop with \<open>a1 = vertices[a]\<close>, \<open>b1 = vertices[b]\<close>,
  \<open>c1 = vertices[c]\<close>. An index out of range is Python's \<open>IndexError\<close>; the compiled
  loop (\<open>numba.njit\<close>) does not check the bound, and what it reads there is not modelled.
\<close>

definition write_borders :: "nat \<Rightarrow> vec2 \<Rightarrow> vec2 \<Rightarrow> vec2 \<Rightarrow> vrec list \<Rightarrow> vrec list" where
  "write_borders i a1 b1 c1 res =
     res[i * 3 := (a1, vsub b1 a1), i * 3 + 1 := (b1, vsub c1 b1), i * 3 + 2 := (c1, vsub a1 c1)]"

fun border_loop ::
  "(int \<Rightarrow> error + vec2) \<Rightarrow> (int \<times> int \<times> int) list \<Rightarrow> nat \<Rightarrow> vrec list \<Rightarrow> error + vrec list" where
  "border_loop corner [] i res = Inr res"
| "border_loop corner ((a, b, c) # triangles) i res =
     (case corner a of Inl e \<Rightarrow> Inl e | Inr a1 \<Rightarrow>
      case corner b of Inl e \<Rightarrow> Inl e | Inr b1 \<Rightarrow>
      case corner c of Inl e \<Rightarrow> Inl e | Inr c1 \<Rightarrow>
        border_loop corner triangles (Suc i) (write_borders i a1 b1 c1 res))"

definition edge_corner :: "vec2 list \<Rightarrow> vec2 list \<Rightarrow> int \<Rightarrow> error + vec2" where
  "edge_corner centers offsets a =
     (case py_get centers a of Inl e \<Rightarrow> Inl e | Inr p \<Rightarrow>
      case py_get offsets a of Inl e \<Rightarrow> Inl e | Inr q \<Rightarrow> Inr (vadd p q))"

definition generate_edge_triangle_borders ::
  "(nat \<Rightarrow> vrec) \<Rightarrow> vec2 list \<Rightarrow> vec2 list \<Rightarrow> (int \<times> int \<times> int) list \<Rightarrow> error + vrec list" where
  "generate_edge_triangle_borders g centers offsets triangles =
     border_loop (edge_corner centers offsets) triangles 0
       (np_empty g (length triangles * 3))"

definition generate_face_triangle_borders ::
  "(nat \<Rightarrow> vrec) \<Rightarrow> vec2 list \<Rightarrow> (int \<times> int \<times> int) list \<Rightarrow> error + vrec list" where
  "generate_face_triangle_borders g vertices triangles =
     border_loop (py_get vertices) triangles 0 (np_empty g (length triangles * 3))"

section \<open>Terms of the statements\<close>

text \<open>The \<open>sharp\<close> fixture of the source file, and two contents for \<open>np.empty\<close>
  used where a concrete run is evaluated.\<close>

definition sharp :: "vec2 list" where
  "sharp = map pt [(1, 1), (10, 0), (1, - 1), (0, - 10), (- 1, - 1), (- 10, 0), (- 1, 1), (0, 10)]"

definition zero_mem :: "nat \<Rightarrow> vrec" where
  "zero_mem i = (zero_vec, zero_vec)"

definition nan_mem :: "nat \<Rightarrow> vrec" where
  "nan_mem i = ((NaN, NaN), (NaN, NaN))"

text \<open>The unit vector from point \<open>p\<close> to point \<open>q\<close>, as the specification words the
  tangent: the difference divided by its Euclidean length. It is compared below with what
  the source computes.\<close>

definition unit_vector :: "real \<times> real \<Rightarrow> real \<times> real \<Rightarrow> real \<times> real" where
  "unit_vector p q =
     (let dx = fst q - fst p; dy = snd q - snd p; len = sqrt (dx * dx + dy * dy)
      in (dx / len, dy / len))"

text \<open>The right-hand side of \<open>vec[-1, 1] = \<dots>\<close> in the closed branch of
  \<open>generate_order_vectors\<close>, named for the statements about it.\<close>

definition closing_direction :: "vec2 list \<Rightarrow> vec2" where
  "closing_direction path =
     vdiv (vsub (path ! 0) (path ! (length path - 1)))
          (linalg_norm (vsub (path ! (length path - 1)) (path ! 0)))"

text \<open>Predicates of the statements about the triangle borders: an index that is in range
  for an array of \<open>n\<close> rows, a triangle whose three indices are, a corner that is read
  and finite, and the sum of the three directions written for triangle \<open>t\<close>.\<close>

definition index_ok :: "nat \<Rightarrow> int \<Rightarrow> bool" where
  "index_ok n i = (- int n \<le> i \<and> i < int n)"

definition triangle_ok :: "nat \<Rightarrow> int \<times> int \<times> int \<Rightarrow> bool" where
  "triangle_ok n t = (index_ok n (fst t) \<and> index_ok n (fst (snd t)) \<and> index_ok n (snd (snd t)))"

definition finite_corner :: "(int \<Rightarrow> error + vec2) \<Rightarrow> int \<Rightarrow> bool" where
  "finite_corner corner a = (case corner a of Inl e \<Rightarrow> False | Inr v \<Rightarrow> vfinite v)"

definition finite_corners :: "(int \<Rightarrow> error + vec2) \<Rightarrow> int \<times> int \<times> int \<Rightarrow> bool" where
  "finite_corners corner t =
     (finite_corner corner (fst t) \<and> finite_corner corner (fst (snd t))
      \<and> finite_corner corner (snd (snd t)))"

definition border_sum :: "vrec list \<Rightarrow> nat \<Rightarrow> vec2" where
  "border_sum res t = vadd (vadd (snd (res ! (t * 3))) (snd (res ! (t * 3 + 1)))) (snd (res ! (t * 3 + 2)))"

section \<open>The edge mesh, from the specification\<close>

text \<open>
  \<open>generate_2D_edge_meshes\<close> is imported by the example from
  \<open>napari.layers.shapes._shapes_utils\<close>, which is not among the source files. The
  definitions of this section follow sections 4.1 to 4.4 of the specification. Where the
  specification leaves a choice open the text says which one is taken: the order of the
  vertices, the side of each offset and the numbering of triangle corners are not fixed
  by it and no statement below depends on them.
\<close>

text \<open>The comparison \<open><\<close> of IEEE numbers: false when either side is NaN.\<close>

fun fl_less :: "fl \<Rightarrow> fl \<Rightarrow> bool" where
  "fl_less (Fin x) (Fin y) = (x < y)"
| "fl_less NaN _ = False"
| "fl_less _ NaN = False"
| "fl_less _ NInf = False"
| "fl_less NInf _ = True"
| "fl_less PInf _ = False"
| "fl_less _ PInf = True"

text \<open>Modelled from the spec: the Path Normalizer (4.1), missing from the sources. It
  "dedups consecutive coincident points" and rejects with \<open>DegeneratePathError\<close> "paths
  with fewer than 2 points (open) or 3 points (closed) after deduplication".\<close>

definition normalize_path :: "vec2 list \<Rightarrow> bool \<Rightarrow> error + vec2 list" where
  "normalize_path path is_closed =
     (let ps = remdups_adj path
      in if length ps < (if is_closed then 3 else 2) then Inl DegeneratePathError else Inr ps)"

text \<open>Modelled from the spec: the Tangent Estimator (4.2), missing from the sources. The
  segment vector is normalized to unit length and the step "fails with
  \<open>ZeroLengthSegmentError\<close> if normalization denominator is zero"; the last point's
  tangent is the unit direction back to the first point if closed, the negative of the
  second-to-last point's tangent if open.\<close>

definition unit_tangent :: "vec2 \<Rightarrow> vec2 \<Rightarrow> error + vec2" where
  "unit_tangent p q =
     (let d = vsub q p; len = linalg_norm d
      in if len = Fin 0 then Inl ZeroLengthSegmentError else Inr (vdiv d len))"

fun sequence_err :: "(error + 'a) list \<Rightarrow> error + 'a list" where
  "sequence_err [] = Inr []"
| "sequence_err (Inl e # rs) = Inl e"
| "sequence_err (Inr x # rs) = (case sequence_err rs of Inl e \<Rightarrow> Inl e | Inr xs \<Rightarrow> Inr (x # xs))"

definition tangent_field :: "vec2 list \<Rightarrow> bool \<Rightarrow> error + vec2 list" where
  "tangent_field ps is_closed =
     (case sequence_err (map2 unit_tangent (butlast ps) (tl ps)) of
        Inl e \<Rightarrow> Inl e
      | Inr ts \<Rightarrow>
          if is_closed then
            (case unit_tangent (ps ! (length ps - 1)) (ps ! 0) of
               Inl e \<Rightarrow> Inl e
             | Inr t \<Rightarrow> Inr (ts @ [t]))
          else Inr (ts @ [vneg (ts ! (length ts - 1))]))"

text \<open>Modelled from the spec: the Miter Join Resolver (4.3), missing from the sources. A
  join is "a tagged-variant decision (Miter | Bevel) per join point". The join normal is
  "the bisector of the two adjacent segment normals (normal = tangent rotated 90
  degrees)", the half-width offset is "bisector / (bisector . segment_normal)", and "when
  the computed offset magnitude exceeds this multiplier" the join falls back to a bevel
  that emits "the two un-mitered segment-normal offsets as a pair rather than a single
  mitered point". The multiplier \<open>limit\<close> is a parameter (the specification recommends
  2.0 and pins no value). The segment normal of the product is the incoming one.
  "Open-path endpoints use the plain perpendicular normal (no miter)".\<close>

datatype join = Miter vec2 | Bevel vec2 vec2

fun is_bevel :: "join \<Rightarrow> bool" where
  "is_bevel (Miter off) = False"
| "is_bevel (Bevel n_in n_out) = True"

definition miter_offset :: "vec2 \<Rightarrow> vec2 \<Rightarrow> vec2" where
  "miter_offset n_in n_out = (let bisector = vadd n_in n_out in vdiv bisector (vdot bisector n_in))"

definition resolve_join :: "real \<Rightarrow> vec2 \<Rightarrow> vec2 \<Rightarrow> join" where
  "resolve_join limit n_in n_out =
     (let off = miter_offset n_in n_out
      in if fl_less (Fin limit) (linalg_norm off) then Bevel n_in n_out else Miter off)"

definition join_at :: "real \<Rightarrow> vec2 list \<Rightarrow> bool \<Rightarrow> nat \<Rightarrow> join" where
  "join_at limit ts is_closed i =
     (let N = length ts
      in if is_closed then resolve_join limit (rot90 (ts ! ((i + N - 1) mod N))) (rot90 (ts ! i))
         else if i = 0 then Miter (rot90 (ts ! 0))
         else if i = N - 1 then Miter (rot90 (ts ! (N - 2)))
         else resolve_join limit (rot90 (ts ! (i - 1))) (rot90 (ts ! i)))"

definition joins :: "real \<Rightarrow> vec2 list \<Rightarrow> bool \<Rightarrow> join list" where
  "joins limit ts is_closed = map (join_at limit ts is_closed) [0..<length ts]"

text \<open>Modelled from the spec: the Edge Mesh Assembler (4.4), missing from the sources:
  "2 vertices per path point (inner offset point and outer offset point)", with
  "inner_offset == -outer_offset in the common case", offsets of the base half-width
  0.5, and "2 triangles per segment (N-1 segments for open, N for closed including the
  wraparound segment)"; a bevel join duplicates "the join vertex so the edge mesh gets an
  extra triangle covering the bevel corner". The inner offset of a bevel join has
  magnitude 0.5 along the bisector (section 8). The rows of one point are adjacent, inner
  first.\<close>

record edge_mesh =
  mesh_vertices :: "vec2 list"
  mesh_offsets :: "vec2 list"
  mesh_triangles :: "(nat \<times> nat \<times> nat) list"

definition half :: "vec2 \<Rightarrow> vec2" where
  "half v = vscale v (Fin (1/2))"

fun join_group :: "vec2 \<Rightarrow> join \<Rightarrow> (vec2 \<times> vec2) list" where
  "join_group p (Miter off) = [(p, vneg (half off)), (p, half off)]"
| "join_group p (Bevel n_in n_out) =
     [(p, vneg (half (vdiv (vadd n_in n_out) (linalg_norm (vadd n_in n_out))))),
      (p, half n_in), (p, half n_out)]"

fun group_size :: "join \<Rightarrow> nat" where
  "group_size (Miter off) = 2"
| "group_size (Bevel n_in n_out) = 3"

definition base_index :: "join list \<Rightarrow> nat \<Rightarrow> nat" where
  "base_index js i = sum_list (map group_size (take i js))"

definition segment_triangles :: "join list \<Rightarrow> nat \<Rightarrow> nat \<Rightarrow> (nat \<times> nat \<times> nat) list" where
  "segment_triangles js i j =
     (let inner_i = base_index js i; outer_i = base_index js i + group_size (js ! i) - 1;
          inner_j = base_index js j; outer_j = base_index js j + 1
      in [(inner_i, outer_i, outer_j), (inner_i, outer_j, inner_j)])"

definition bevel_triangles :: "join list \<Rightarrow> nat \<Rightarrow> (nat \<times> nat \<times> nat) list" where
  "bevel_triangles js i =
     (if is_bevel (js ! i)
      then [(base_index js i, base_index js i + 1, base_index js i + 2)] else [])"

definition assemble :: "vec2 list \<Rightarrow> join list \<Rightarrow> bool \<Rightarrow> edge_mesh" where
  "assemble ps js is_closed =
     (let N = length ps;
          rows = concat (map2 join_group ps js)
      in \<lparr>mesh_vertices = map fst rows,
          mesh_offsets = map snd rows,
          mesh_triangles =
            concat (map (\<lambda>i. segment_triangles js i (i + 1)) [0..<N - 1])
            @ (if is_closed then segment_triangles js (N - 1) 0 else [])
            @ concat (map (bevel_triangles js) [0..<N])\<rparr>)"

text \<open>Modelled from the spec: the pipeline 4.1 to 4.4 behind \<open>generateEdgeMesh(path,
  closed)\<close>, the function the example imports as \<open>generate_2D_edge_meshes\<close>.\<close>

definition edge_joins :: "real \<Rightarrow> vec2 list \<Rightarrow> bool \<Rightarrow> error + vec2 list \<times> join list" where
  "edge_joins limit path is_closed =
     (case normalize_path path is_closed of
        Inl e \<Rightarrow> Inl e
      | Inr ps \<Rightarrow>
          (case tangent_field ps is_closed of
             Inl e \<Rightarrow> Inl e
           | Inr ts \<Rightarrow> Inr (ps, joins limit ts is_closed)))"

definition generate_2D_edge_meshes :: "real \<Rightarrow> vec2 list \<Rightarrow> bool \<Rightarrow> error + edge_mesh" where
  "generate_2D_edge_meshes limit path is_closed =
     (case edge_joins limit path is_closed of
        Inl e \<Rightarrow> Inl e
      | Inr (ps, js) \<Rightarrow> Inr (assemble ps js is_closed))"

definition segment_count :: "nat \<Rightarrow> bool \<Rightarrow> nat" where
  "segment_count N is_closed = (if is_closed then N else N - 1)"

text \<open>The number of triangles of a result, an error kept as it is.\<close>

definition triangle_count :: "error + edge_mesh \<Rightarrow> error + nat" where
  "triangle_count r = (case r of Inl e \<Rightarrow> Inl e | Inr mesh \<Rightarrow> Inr (length (mesh_triangles mesh)))"

section \<open>Properties\<close>

lemma length_scale_dirs [simp]: "length (scale_dirs c arr) = length arr"
  by (simp add: scale_dirs_def)

lemma nth_scale_dirs [simp]:
  "i < length arr \<Longrightarrow> scale_dirs c arr ! i = (fst (arr ! i), vscale (snd (arr ! i)) c)"
  by (simp add: scale_dirs_def)

lemma length_dirs [simp]: "length (dirs arr) = length arr"
  by (simp add: dirs_def)

lemma nth_dirs [simp]: "i < length arr \<Longrightarrow> dirs arr ! i = snd (arr ! i)"
  by (simp add: dirs_def)

lemma length_roll1 [simp]: "length (roll1 xs) = length xs"
  by (simp add: roll1_def)

lemma nth_roll1:
  assumes "i < length xs"
  shows "roll1 xs ! i = xs ! ((i + length xs - 1) mod length xs)"
proof (cases i)
  case 0
  with assms show ?thesis
    by (simp add: roll1_def last_conv_nth)
next
  case (Suc j)
  with assms have ne: "xs \<noteq> []" and j: "j < length xs - 1"
    by auto
  from j have "(Suc j + length xs - 1) mod length xs = j"
    by simp
  with Suc ne j show ?thesis
    by (simp add: roll1_def nth_butlast)
qed

lemma length_set_dirs [simp]: "length (set_dirs ds arr) = min (length ds) (length arr)"
  by (simp add: set_dirs_def)

lemma nth_set_dirs [simp]:
  "i < length ds \<Longrightarrow> i < length arr \<Longrightarrow> set_dirs ds arr ! i = (fst (arr ! i), ds ! i)"
  by (simp add: set_dirs_def)

lemma length_add_origins [simp]:
  "length (add_origins ds arr) = min (length ds) (length arr)"
  by (simp add: add_origins_def)

lemma nth_add_origins [simp]:
  "i < length ds \<Longrightarrow> i < length arr \<Longrightarrow>
   add_origins ds arr ! i = (vadd (fst (arr ! i)) (ds ! i), snd (arr ! i))"
  by (simp add: add_origins_def)

lemma fl_mul_minus_one: "fl_mul x (Fin (- 1)) = fl_neg x"
  by (cases x) (simp_all add: inf_of_sign_def)

lemma vscale_minus_one: "vscale u (Fin (- 1)) = vneg u"
  by (simp add: vscale_def vneg_def fl_mul_minus_one)

lemma fl_half: "fl_mul x (Fin (1/2)) = fl_div x (Fin 2)"
  by (cases x) (simp_all add: inf_of_sign_def)

lemma vscale_half: "vscale u (Fin (1/2)) = vdiv u (Fin 2)"
  by (simp add: vscale_def vdiv_def fl_half)

text \<open>Python's \<open>(i - 1) % N\<close> on naturals.\<close>

lemma prev_index:
  assumes "i < N"
  shows "nat ((int i - 1) mod int N) = (i + N - 1) mod N"
proof (cases i)
  case 0
  from assms have "(- 1) mod int N = int N - 1"
    by (simp add: zmod_minus1)
  with 0 assms show ?thesis
    by simp
next
  case (Suc j)
  with assms have "(int i - 1) mod int N = int j"
    by simp
  with Suc assms show ?thesis
    by simp
qed

subsection \<open>generate_miter_helper_vectors\<close>

text \<open>One run: the two copies are appended to the store, nothing else changes.\<close>

lemma miter_helper_run:
  assumes "a < length h"
  shows "generate_miter_helper_vectors a h =
     (let v2 = scale_dirs (Fin (1/2)) (h ! a);
          v3 = scale_dirs (Fin (- 1)) v2;
          v3' = add_origins (dirs v2) (set_dirs (roll1 (dirs v3)) v3)
      in (v2 @ v3', h @ [v2, v3']))"
  using assms
  by (simp add: generate_miter_helper_vectors_def np_copy_def Let_def nth_append)

text \<open>
  Claim C10. For an input array of \<open>N\<close> (origin, direction) records (the array at
  address \<open>a\<close> of the store), \<open>generate_miter_helper_vectors\<close> returns \<open>2N\<close> records:
  record \<open>i\<close> is \<open>(origin\<^sub>i, direction\<^sub>i / 2)\<close> and record \<open>N + i\<close> is
  \<open>(origin\<^sub>i + direction\<^sub>i / 2, - direction\<^sub>j / 2)\<close> with \<open>j = (i - 1) mod N\<close>, the
  previous record, the last one for \<open>i = 0\<close>. It holds for every content of the array,
  the special values included.
\<close>

theorem miter_helper_layout:
  assumes "a < length h"
  shows "length (fst (generate_miter_helper_vectors a h)) = 2 * length (h ! a) \<and>
    (\<forall>i < length (h ! a).
       fst (generate_miter_helper_vectors a h) ! i
         = (fst (h ! a ! i), vdiv (snd (h ! a ! i)) (Fin 2)) \<and>
       fst (generate_miter_helper_vectors a h) ! (length (h ! a) + i)
         = (vadd (fst (h ! a ! i)) (vdiv (snd (h ! a ! i)) (Fin 2)),
            vneg (vdiv (snd (h ! a ! nat ((int i - 1) mod int (length (h ! a))))) (Fin 2))))"
proof -
  let ?N = "length (h ! a)"
  have len: "length (fst (generate_miter_helper_vectors a h)) = 2 * ?N"
    using assms by (simp add: miter_helper_run Let_def)
  have rows: "fst (generate_miter_helper_vectors a h) ! i
         = (fst (h ! a ! i), vdiv (snd (h ! a ! i)) (Fin 2)) \<and>
       fst (generate_miter_helper_vectors a h) ! (?N + i)
         = (vadd (fst (h ! a ! i)) (vdiv (snd (h ! a ! i)) (Fin 2)),
            vneg (vdiv (snd (h ! a ! nat ((int i - 1) mod int ?N))) (Fin 2)))"
    if i: "i < ?N" for i
  proof -
    have p: "(i + ?N - 1) mod ?N < ?N"
      using i by (intro mod_less_divisor) auto
    show ?thesis
      using i p assms
      by (simp add: miter_helper_run Let_def nth_append nth_roll1 prev_index
            vscale_half vscale_minus_one)
  qed
  from len rows show ?thesis
    by blast
qed

theorem miter_helper_layout_witness:
  "(0::nat) < length [[(pt (0, 0), pt (2, 0)), (pt (2, 0), pt (0, 4)), (pt (2, 4), pt (- 6, 0))]] \<and>
   length (fst (generate_miter_helper_vectors 0
      [[(pt (0, 0), pt (2, 0)), (pt (2, 0), pt (0, 4)), (pt (2, 4), pt (- 6, 0))]])) = 6 \<and>
   fst (generate_miter_helper_vectors 0
      [[(pt (0, 0), pt (2, 0)), (pt (2, 0), pt (0, 4)), (pt (2, 4), pt (- 6, 0))]]) ! 3
     = (pt (1, 0), pt (3, 0))"
proof -
  let ?h = "[[(pt (0, 0), pt (2, 0)), (pt (2, 0), pt (0, 4)), (pt (2, 4), pt (- 6, 0))]]"
  have a: "(0::nat) < length ?h"
    by simp
  note layout = miter_helper_layout [OF a]
  from layout have "length (fst (generate_miter_helper_vectors 0 ?h)) = 6"
    by simp
  moreover from layout [THEN conjunct2, rule_format, of 0]
  have "fst (generate_miter_helper_vectors 0 ?h) ! 3 = (pt (1, 0), pt (3, 0))"
    by (simp add: pt_def vadd_def vdiv_def vneg_def numeral_3_eq_3)
  ultimately show ?thesis
    using a by simp
qed

subsection \<open>generate_orthogonal_vectors\<close>

lemma length_set_dirs_x [simp]: "length (set_dirs_x xs arr) = min (length xs) (length arr)"
  by (simp add: set_dirs_x_def)

lemma nth_set_dirs_x [simp]:
  "i < length xs \<Longrightarrow> i < length arr \<Longrightarrow>
   set_dirs_x xs arr ! i = (fst (arr ! i), (xs ! i, snd (snd (arr ! i))))"
  by (simp add: set_dirs_x_def)

lemma length_set_dirs_y [simp]: "length (set_dirs_y ys arr) = min (length ys) (length arr)"
  by (simp add: set_dirs_y_def)

lemma nth_set_dirs_y [simp]:
  "i < length ys \<Longrightarrow> i < length arr \<Longrightarrow>
   set_dirs_y ys arr ! i = (fst (arr ! i), (fst (snd (arr ! i)), ys ! i))"
  by (simp add: set_dirs_y_def)

lemma orthogonal_run:
  assumes "a < length h"
  shows "generate_orthogonal_vectors a h =
     (let v2 = scale_dirs (Fin (1/2)) (h ! a);
          v5 = set_dirs_y (map fst (dirs v2))
                 (set_dirs_x (map (\<lambda>d. fl_neg (snd d)) (dirs v2)) (add_origins (dirs v2) v2))
      in (v5, h @ [v2, v5]))"
  using assms
  by (simp add: generate_orthogonal_vectors_def np_copy_def Let_def nth_append)

lemma sqrt_quarter: "sqrt (y / 2 * (y / 2) + x / 2 * (x / 2)) = sqrt (x * x + y * y) / 2"
proof -
  have "y / 2 * (y / 2) + x / 2 * (x / 2) = (x * x + y * y) / 2\<^sup>2"
    by (simp add: field_simps power2_eq_square)
  then show ?thesis
    by (simp only: real_sqrt_divide real_sqrt_abs)
qed

lemma sqrt_quarter_simp: "sqrt (y * y / 4 + x * x / 4) * 2 = sqrt (x * x + y * y)"
  using sqrt_quarter [of y x] by simp

lemma rot90_half_dot:
  assumes "vfinite d"
  shows "vdot (rot90 (vdiv d (Fin 2))) d = Fin 0"
proof -
  from assms obtain x y where d: "d = (Fin x, Fin y)"
    by (cases d, cases "fst d"; cases "snd d") (auto simp: vfinite_def)
  show ?thesis
    by (simp add: d rot90_def vdiv_def vdot_def)
qed

lemma rot90_half_norm:
  assumes "vfinite d"
  shows "linalg_norm (rot90 (vdiv d (Fin 2))) = fl_div (linalg_norm d) (Fin 2)"
proof -
  from assms obtain x y where d: "d = (Fin x, Fin y)"
    by (cases d, cases "fst d"; cases "snd d") (auto simp: vfinite_def)
  show ?thesis
    by (simp add: d rot90_def vdiv_def vdot_def linalg_norm_def sqrt_quarter_simp)
qed




subsection \<open>generate_order_vectors\<close>

lemma length_segment_normals [simp]: "length (segment_normals path) = length path - 1"
  by (simp add: segment_normals_def Let_def)

lemma nth_segment_normals:
  assumes "i + 1 < length path"
  shows "segment_normals path ! i =
           vdiv (vsub (path ! (i + 1)) (path ! i)) (linalg_norm (vsub (path ! (i + 1)) (path ! i)))"
  using assms by (simp add: segment_normals_def Let_def nth_tl nth_butlast)

lemma length_np_empty [simp]: "length (np_empty g n) = n"
  by (simp add: np_empty_def)

lemma length_set_origins [simp]: "length (set_origins ps arr) = min (length ps) (length arr)"
  by (simp add: set_origins_def)

lemma nth_set_origins [simp]:
  "i < length ps \<Longrightarrow> i < length arr \<Longrightarrow> set_origins ps arr ! i = (ps ! i, snd (arr ! i))"
  by (simp add: set_origins_def)

lemma length_set_dirs_butlast [simp]:
  "length ds = length arr - 1 \<Longrightarrow> length (set_dirs_butlast ds arr) = length arr"
  by (cases "arr = []") (simp_all add: set_dirs_butlast_def)

lemma nth_set_dirs_butlast:
  assumes "length ds = length arr - 1" and "i < length arr"
  shows "set_dirs_butlast ds arr ! i =
           (fst (arr ! i), if i + 1 < length arr then ds ! i else snd (arr ! i))"
proof (cases "i + 1 < length arr")
  case True
  then have "i < length arr - 1"
    by simp
  with True assms show ?thesis
    by (simp add: set_dirs_butlast_def nth_append nth_butlast)
next
  case False
  with assms have i: "i = length arr - 1" and ne: "0 < length arr"
    by auto
  have "length (set_dirs ds (butlast arr)) = i"
    using assms i by simp
  then have "set_dirs_butlast ds arr ! i = drop (length arr - 1) arr ! 0"
    by (simp add: set_dirs_butlast_def nth_append)
  also have "\<dots> = arr ! i"
    using i ne by simp
  finally show ?thesis
    using False by simp
qed

lemma length_set_dir_at [simp]: "length (set_dir_at i d arr) = length arr"
  by (simp add: set_dir_at_def)

lemma nth_set_dir_at:
  "j < length arr \<Longrightarrow>
   set_dir_at i d arr ! j = (if j = i then (fst (arr ! i), d) else arr ! j)"
  by (simp add: set_dir_at_def nth_list_update)

text \<open>The array returned, row by row: no cell of the uninitialised array is left.\<close>

lemma order_vectors_value:
  "generate_order_vectors g path c =
     (if c then
        (if length path = 0 then Inl IndexError
         else Inr (zip path (segment_normals path @ [closing_direction path])))
      else
        (if length path < 2 then Inl IndexError
         else Inr (zip path (segment_normals path
                      @ [vneg (segment_normals path ! (length path - 2))]))))"
proof -
  let ?N = "length path"
  let ?vec = "set_dirs_butlast (segment_normals path) (set_origins path (np_empty g ?N))"
  have len: "length ?vec = ?N"
    by simp
  have row: "?vec ! i = (path ! i, if i + 1 < ?N then segment_normals path ! i else snd (g i))"
    if "i < ?N" for i
    using that by (simp add: nth_set_dirs_butlast np_empty_def)
  have closed_case: "set_dir_at (?N - 1) d ?vec = zip path (segment_normals path @ [d])"
    if "0 < ?N" for d
  proof (rule nth_equalityI)
    show "length (set_dir_at (?N - 1) d ?vec) = length (zip path (segment_normals path @ [d]))"
      using that by simp
  next
    fix i
    assume "i < length (set_dir_at (?N - 1) d ?vec)"
    then have i: "i < ?N"
      by simp
    with that show "set_dir_at (?N - 1) d ?vec ! i = zip path (segment_normals path @ [d]) ! i"
      by (auto simp add: nth_set_dir_at row nth_append)
  qed
  have prev: "snd (?vec ! (?N - 2)) = segment_normals path ! (?N - 2)" if "2 \<le> ?N"
  proof -
    from that have "?N - 2 < ?N" and "?N - 2 + 1 < ?N"
      by simp_all
    then show ?thesis
      by (simp only: row if_True snd_conv)
  qed
  show ?thesis
  proof (cases c)
    case True
    show ?thesis
    proof (cases "?N = 0")
      case True
      with \<open>c\<close> show ?thesis
        by (simp add: generate_order_vectors_def Let_def)
    next
      case False
      then have "0 < ?N"
        by simp
      from closed_case [OF this] \<open>c\<close> False show ?thesis
        by (simp add: generate_order_vectors_def Let_def closing_direction_def)
    qed
  next
    case open_path: False
    show ?thesis
    proof (cases "?N < 2")
      case True
      with open_path show ?thesis
        by (simp add: generate_order_vectors_def Let_def)
    next
      case False
      then have "0 < ?N" and "2 \<le> ?N"
        by auto
      from closed_case [OF this(1)] prev [OF this(2)] open_path False show ?thesis
        by (simp add: generate_order_vectors_def Let_def)
    qed
  qed
qed

lemma vsub_pt: "vsub (pt q) (pt p) = pt (fst q - fst p, snd q - snd p)"
  by (simp add: vsub_def pt_def fl_sub_def)

lemma linalg_norm_pt: "linalg_norm (pt d) = Fin (sqrt (fst d * fst d + snd d * snd d))"
  by (simp add: linalg_norm_def vdot_def pt_def not_sum_squares_lt_zero)

lemma norm_pos_iff: "sqrt (dx * dx + dy * dy) = 0 \<longleftrightarrow> dx = 0 \<and> dy = (0::real)"
  by (simp add: sum_squares_eq_zero_iff)

lemma unit_direction:
  assumes "p \<noteq> q"
  shows "vdiv (vsub (pt q) (pt p)) (linalg_norm (vsub (pt q) (pt p))) = pt (unit_vector p q)"
proof -
  from assms have "fst q - fst p \<noteq> 0 \<or> snd q - snd p \<noteq> 0"
    by (auto simp add: prod_eq_iff)
  then have "sqrt ((fst q - fst p) * (fst q - fst p) + (snd q - snd p) * (snd q - snd p)) \<noteq> 0"
    by (simp only: norm_pos_iff) blast
  then show ?thesis
    unfolding vsub_pt linalg_norm_pt
    by (simp add: vdiv_def pt_def unit_vector_def Let_def)
qed

lemma zero_direction:
  "vdiv (vsub (pt p) (pt p)) (linalg_norm (vsub (pt p) (pt p))) = (NaN, NaN)"
  unfolding vsub_pt linalg_norm_pt
  by (simp add: vdiv_def pt_def)

lemma sqrt_swap:
  "sqrt ((a - b) * (a - b) + (c - d) * (c - d)) = sqrt ((b - a) * (b - a) + (d - c) * (d - c))"
  for a b c d :: real
proof -
  have "(a - b) * (a - b) = (b - a) * (b - a)" and "(c - d) * (c - d) = (d - c) * (d - c)"
    by (simp_all add: algebra_simps)
  then show ?thesis
    by simp
qed

lemma linalg_norm_swap: "linalg_norm (vsub (pt p) (pt q)) = linalg_norm (vsub (pt q) (pt p))"
  by (simp only: vsub_pt linalg_norm_pt fst_conv snd_conv sqrt_swap [of "fst p" "fst q"])

lemma closing_unit_direction:
  assumes "p \<noteq> q"
  shows "vdiv (vsub (pt q) (pt p)) (linalg_norm (vsub (pt p) (pt q))) = pt (unit_vector p q)"
  using unit_direction [OF assms] by (simp only: linalg_norm_swap [of p q])

lemma unit_vector_norm:
  assumes "p \<noteq> q"
  shows "linalg_norm (pt (unit_vector p q)) = Fin 1"
proof -
  define dx dy where "dx = fst q - fst p" and "dy = snd q - snd p"
  define len where "len = sqrt (dx * dx + dy * dy)"
  from assms have nz: "dx \<noteq> 0 \<or> dy \<noteq> 0"
    by (auto simp add: prod_eq_iff dx_def dy_def)
  then have pos: "0 < dx * dx + dy * dy"
    by (metis not_sum_squares_lt_zero sum_squares_eq_zero_iff less_eq_real_def not_le)
  then have len: "len * len = dx * dx + dy * dy"
    by (simp add: len_def)
  have "dx / len * (dx / len) + dy / len * (dy / len) = (dx * dx + dy * dy) / (len * len)"
    by (simp add: add_divide_distrib)
  also have "\<dots> = 1"
    using nz by (simp only: len) auto
  finally have "sqrt (dx / len * (dx / len) + dy / len * (dy / len)) = 1"
    by simp
  then show ?thesis
    unfolding linalg_norm_pt
    by (simp add: unit_vector_def Let_def dx_def dy_def len_def)
qed

lemma linalg_norm_vneg_pt: "linalg_norm (vneg (pt d)) = linalg_norm (pt d)"
  by (simp add: linalg_norm_def vdot_def vneg_def pt_def)

lemma vneg_pt: "vneg (pt d) = pt (- fst d, - snd d)"
  by (simp add: vneg_def pt_def)

text \<open>The rows of the result for a path of two points or more.\<close>

lemma order_vectors_rows:
  assumes N: "2 \<le> length path"
  shows "\<exists>vec. generate_order_vectors g path c = Inr vec \<and> length vec = length path \<and>
     (\<forall>i < length path. fst (vec ! i) = path ! i) \<and>
     (\<forall>i. i + 1 < length path \<longrightarrow> snd (vec ! i) = segment_normals path ! i) \<and>
     (c \<longrightarrow> snd (vec ! (length path - 1)) = closing_direction path) \<and>
     (\<not> c \<longrightarrow> snd (vec ! (length path - 1)) = vneg (snd (vec ! (length path - 2))))"
proof -
  let ?N = "length path"
  let ?ns = "segment_normals path"
  define d where "d = (if c then closing_direction path else vneg (?ns ! (?N - 2)))"
  define vec where "vec = zip path (?ns @ [d])"
  from N have "path \<noteq> []" and "\<not> length path < 2"
    by auto
  then have run: "generate_order_vectors g path c = Inr vec"
    by (simp add: order_vectors_value vec_def d_def)
  from N have len: "length vec = ?N"
    by (simp add: vec_def)
  have orig: "fst (vec ! i) = path ! i" if "i < ?N" for i
    using that N by (simp add: vec_def)
  have inner: "snd (vec ! i) = ?ns ! i" if "i + 1 < ?N" for i
  proof -
    from that have "i < ?N - 1" and "i < ?N"
      by auto
    then show ?thesis
      by (simp add: vec_def nth_append)
  qed
  have final: "snd (vec ! (?N - 1)) = d"
    using N by (simp add: vec_def nth_append)
  from N have "?N - 2 + 1 < ?N"
    by simp
  from inner [OF this] have "snd (vec ! (?N - 2)) = ?ns ! (?N - 2)" .
  with final have "c \<longrightarrow> snd (vec ! (?N - 1)) = closing_direction path"
    and "\<not> c \<longrightarrow> snd (vec ! (?N - 1)) = vneg (snd (vec ! (?N - 2)))"
    by (simp_all add: d_def)
  with run len orig inner show ?thesis
    by blast
qed


lemma sqrt_9: "sqrt 9 = 3" and sqrt_16: "sqrt 16 = 4" and sqrt_25: "sqrt 25 = 5"
  by (rule real_sqrt_unique; simp)+



text \<open>
  Claim C3, amended. \<open>generate_order_vectors\<close> has no check for a zero-length segment
  and raises nothing there: for a path of \<open>N \<ge> 2\<close> points (finite coordinates) in which
  points \<open>i\<close> and \<open>i + 1\<close> coincide, it returns \<open>N\<close> records, and the direction of
  record \<open>i\<close> is \<open>(NaN, NaN)\<close>, the quotient \<open>0 / 0\<close> of NumPy.
\<close>

theorem order_vectors_zero_segment:
  assumes "2 \<le> length ps" and "i + 1 < length ps" and "ps ! i = ps ! (i + 1)"
  shows "\<exists>vec. generate_order_vectors g (map pt ps) c = Inr vec \<and> length vec = length ps \<and>
           snd (vec ! i) = (NaN, NaN)"
proof -
  from assms(1) have "2 \<le> length (map pt ps)"
    by simp
  from order_vectors_rows [OF this, of g c] obtain vec where
    run: "generate_order_vectors g (map pt ps) c = Inr vec" and len: "length vec = length ps"
    and inner: "\<forall>i. i + 1 < length ps \<longrightarrow> snd (vec ! i) = segment_normals (map pt ps) ! i"
    by auto
  from inner assms(2) have "snd (vec ! i) = segment_normals (map pt ps) ! i"
    by blast
  with assms(2,3) have "snd (vec ! i) = (NaN, NaN)"
    by (simp add: nth_segment_normals zero_direction)
  with run len show ?thesis
    by blast
qed

theorem order_vectors_zero_segment_witness:
  "\<exists>vec. generate_order_vectors zero_mem (map pt [(1, 1), (2, 1), (2, 1)]) True = Inr vec \<and>
     length vec = 3 \<and> snd (vec ! 1) = (NaN, NaN)"
proof -
  let ?ps = "[(1, 1), (2, 1), (2, 1)] :: (real \<times> real) list"
  have "2 \<le> length ?ps" and "1 + 1 < length ?ps" and "?ps ! 1 = ?ps ! (1 + 1)"
    by simp_all
  from order_vectors_zero_segment [OF this, of zero_mem True] show ?thesis
    by (simp add: numeral_3_eq_3)
qed

text \<open>
  Claim C3 as stated expects \<open>ZeroLengthSegmentError\<close>. The open path
  \<open>(0,0), (0,0), (1,0)\<close> has two coincident consecutive points and the function returns.
\<close>

theorem order_vectors_no_raise_counterexample:
  "generate_order_vectors zero_mem (map pt [(0, 0), (0, 0), (1, 0)]) False
     = Inr [(pt (0, 0), (NaN, NaN)), (pt (0, 0), pt (1, 0)), (pt (1, 0), pt (- 1, 0))]"
  by (simp add: order_vectors_value segment_normals_def
        vsub_def fl_sub_def vdiv_def vneg_def linalg_norm_def vdot_def pt_def)

lemma unit_vector_neg_norm:
  assumes "p \<noteq> q"
  shows "linalg_norm (vneg (pt (unit_vector p q))) = Fin 1"
  using unit_vector_norm [OF assms] by (simp only: linalg_norm_vneg_pt)




lemma sharp_segment_normals:
  "segment_normals sharp =
     [pt (9 / sqrt 82, - 1 / sqrt 82), pt (- 9 / sqrt 82, - 1 / sqrt 82),
      pt (- 1 / sqrt 82, - 9 / sqrt 82), pt (- 1 / sqrt 82, 9 / sqrt 82),
      pt (- 9 / sqrt 82, 1 / sqrt 82), pt (9 / sqrt 82, 1 / sqrt 82),
      pt (1 / sqrt 82, 9 / sqrt 82)]"
  by (simp add: sharp_def segment_normals_def vsub_def fl_sub_def vdiv_def linalg_norm_def
        vdot_def pt_def)

lemma sharp_closing_direction: "closing_direction sharp = pt (1 / sqrt 82, - 9 / sqrt 82)"
  by (simp add: sharp_def closing_direction_def vsub_def fl_sub_def vdiv_def linalg_norm_def
        vdot_def pt_def)

lemma sharp_order_vectors:
  "generate_order_vectors g sharp True =
     Inr (zip sharp (segment_normals sharp @ [closing_direction sharp]))"
  by (simp add: order_vectors_value sharp_def)

lemma rec_finite_pt [simp]: "rec_finite (pt p, pt d)"
  by (simp add: rec_finite_def vfinite_def pt_def)


subsection \<open>generate_edge_triangle_borders and generate_face_triangle_borders\<close>

lemma length_write_borders [simp]: "length (write_borders i a1 b1 c1 res) = length res"
  by (simp add: write_borders_def)

lemma write_borders_before:
  "j < i * 3 \<Longrightarrow> write_borders i a1 b1 c1 res ! j = res ! j"
  by (simp add: write_borders_def)

lemma write_borders_rows:
  assumes "i * 3 + 2 < length res"
  shows "write_borders i a1 b1 c1 res ! (i * 3) = (a1, vsub b1 a1)"
    and "write_borders i a1 b1 c1 res ! (i * 3 + 1) = (b1, vsub c1 b1)"
    and "write_borders i a1 b1 c1 res ! (i * 3 + 2) = (c1, vsub a1 c1)"
  using assms by (simp_all add: write_borders_def)

lemma vfiniteE:
  assumes "vfinite v"
  obtains x y where "v = (Fin x, Fin y)"
proof -
  from assms have "is_finite (fst v)" and "is_finite (snd v)"
    by (simp_all add: vfinite_def)
  then obtain x y where "fst v = Fin x" and "snd v = Fin y"
    by (cases "fst v"; cases "snd v") simp_all
  then have "v = (Fin x, Fin y)"
    by (simp add: prod_eq_iff)
  then show thesis
    by (rule that)
qed

lemma finite_loop_sum:
  assumes "vfinite a1" "vfinite b1" "vfinite c1"
  shows "vadd (vadd (vsub b1 a1) (vsub c1 b1)) (vsub a1 c1) = zero_vec"
proof -
  from assms(1) obtain ax ay where "a1 = (Fin ax, Fin ay)"
    by (rule vfiniteE)
  moreover from assms(2) obtain bx "by" where "b1 = (Fin bx, Fin by)"
    by (rule vfiniteE)
  moreover from assms(3) obtain cx cy where "c1 = (Fin cx, Fin cy)"
    by (rule vfiniteE)
  ultimately show ?thesis
    by (simp add: vadd_def vsub_def fl_sub_def zero_vec_def)
qed

lemma finite_cornerE:
  assumes "finite_corner corner a"
  obtains v where "corner a = Inr v" and "vfinite v"
  using assms by (auto simp add: finite_corner_def split: sum.splits)

text \<open>The loop invariant: rows before \<open>3 i\<close> are kept, and each triangle from \<open>i\<close> on
  gets three rows whose directions cancel.\<close>

lemma border_loop_rows:
  assumes "list_all (finite_corners corner) ts" and "(i + length ts) * 3 \<le> length res"
  shows "\<exists>res'. border_loop corner ts i res = Inr res' \<and> length res' = length res \<and>
           (\<forall>j < i * 3. res' ! j = res ! j) \<and>
           (\<forall>k < length ts. border_sum res' (i + k) = zero_vec)"
  using assms
proof (induction ts arbitrary: i res)
  case Nil
  then show ?case
    by simp
next
  case (Cons t ts)
  obtain a b c where t: "t = (a, b, c)"
    by (cases t) auto
  from Cons.prems(1) t have "finite_corner corner a" "finite_corner corner b" "finite_corner corner c"
    by (simp_all add: finite_corners_def)
  then obtain a1 b1 c1 where
    ca: "corner a = Inr a1" "corner b = Inr b1" "corner c = Inr c1"
    and fin: "vfinite a1" "vfinite b1" "vfinite c1"
    by (elim finite_cornerE) blast
  let ?res1 = "write_borders i a1 b1 c1 res"
  from Cons.prems have rest: "list_all (finite_corners corner) ts"
    and room: "(Suc i + length ts) * 3 \<le> length ?res1"
    by simp_all
  from Cons.IH [OF rest room] obtain res' where
    run: "border_loop corner ts (Suc i) ?res1 = Inr res'"
    and len: "length res' = length ?res1"
    and old: "\<forall>j < Suc i * 3. res' ! j = ?res1 ! j"
    and sums: "\<forall>k < length ts. border_sum res' (Suc i + k) = zero_vec"
    by blast
  from room have in_range: "i * 3 + 2 < length res"
    by simp
  have run': "border_loop corner (t # ts) i res = Inr res'"
    by (simp add: t ca run)
  have before: "res' ! j = res ! j" if "j < i * 3" for j
  proof -
    from that have "j < Suc i * 3"
      by simp
    with old have "res' ! j = ?res1 ! j"
      by blast
    with that show ?thesis
      by (simp add: write_borders_before)
  qed
  have "res' ! (i * 3) = (a1, vsub b1 a1)" "res' ! (i * 3 + 1) = (b1, vsub c1 b1)"
    "res' ! (i * 3 + 2) = (c1, vsub a1 c1)"
    using old write_borders_rows [OF in_range, of a1 b1 c1] by simp_all
  then have here: "border_sum res' i = zero_vec"
    by (simp add: border_sum_def finite_loop_sum [OF fin])
  have all: "border_sum res' (i + k) = zero_vec" if "k < length (t # ts)" for k
  proof (cases k)
    case 0
    with here show ?thesis
      by simp
  next
    case (Suc k')
    with that sums show ?thesis
      by simp
  qed
  from run' len before all show ?case
    by auto
qed

lemma py_get_pt:
  assumes "index_ok (length ps) i"
  shows "\<exists>p. py_get (map pt ps) i = Inr (pt p)"
proof (cases "0 \<le> i")
  case True
  with assms have "py_get (map pt ps) i = Inr (pt (ps ! nat i))"
    by (simp add: index_ok_def py_get_def)
  then show ?thesis ..
next
  case False
  with assms have "py_get (map pt ps) i = Inr (pt (ps ! nat (int (length ps) + i)))"
    by (simp add: index_ok_def py_get_def)
  then show ?thesis ..
qed

lemma vfinite_pt [simp]: "vfinite (pt p)"
  by (simp add: vfinite_def pt_def)

lemma vadd_pt: "vadd (pt p) (pt q) = pt (fst p + fst q, snd p + snd q)"
  by (simp add: vadd_def pt_def)

lemma face_corner_finite:
  assumes "index_ok (length vs) i"
  shows "finite_corner (py_get (map pt vs)) i"
  using py_get_pt [OF assms] by (auto simp add: finite_corner_def)

lemma edge_corner_finite:
  assumes "index_ok (min (length cs) (length os)) i"
  shows "finite_corner (edge_corner (map pt cs) (map pt os)) i"
proof -
  from assms have "index_ok (length cs) i" and "index_ok (length os) i"
    by (auto simp add: index_ok_def min_def split: if_splits)
  then obtain p q where "py_get (map pt cs) i = Inr (pt p)" and "py_get (map pt os) i = Inr (pt q)"
    using py_get_pt by blast
  then show ?thesis
    by (simp add: finite_corner_def edge_corner_def vadd_pt)
qed

lemma face_corners_finite:
  "list_all (triangle_ok (length vs)) ts \<Longrightarrow>
   list_all (finite_corners (py_get (map pt vs))) ts"
  by (induction ts) (simp_all add: triangle_ok_def finite_corners_def face_corner_finite)

lemma edge_corners_finite:
  "list_all (triangle_ok (min (length cs) (length os))) ts \<Longrightarrow>
   list_all (finite_corners (edge_corner (map pt cs) (map pt os))) ts"
  by (induction ts) (simp_all add: triangle_ok_def finite_corners_def edge_corner_finite)




subsection \<open>Independence of uninitialised memory and of the rest of the store\<close>

lemma border_loop_agree:
  assumes "length res1 = length res2"
    and "\<forall>j < length res1. j < i * 3 \<or> (i + length ts) * 3 \<le> j \<longrightarrow> res1 ! j = res2 ! j"
  shows "border_loop corner ts i res1 = border_loop corner ts i res2"
  using assms
proof (induction ts arbitrary: i res1 res2)
  case Nil
  have "res1 = res2"
  proof (rule nth_equalityI)
    show "length res1 = length res2"
      by (rule Nil.prems(1))
  next
    fix j
    assume j: "j < length res1"
    have "j < i * 3 \<or> (i + length ([] :: (int \<times> int \<times> int) list)) * 3 \<le> j"
      by auto
    with Nil.prems(2) j show "res1 ! j = res2 ! j"
      by blast
  qed
  then show ?case
    by simp
next
  case (Cons t ts)
  obtain a b c where t: "t = (a, b, c)"
    by (cases t) auto
  have step: "border_loop corner ts (Suc i) (write_borders i a1 b1 c1 res1)
            = border_loop corner ts (Suc i) (write_borders i a1 b1 c1 res2)" for a1 b1 c1
  proof (rule Cons.IH)
    show "length (write_borders i a1 b1 c1 res1) = length (write_borders i a1 b1 c1 res2)"
      using Cons.prems(1) by simp
  next
    show "\<forall>j < length (write_borders i a1 b1 c1 res1).
            j < Suc i * 3 \<or> (Suc i + length ts) * 3 \<le> j \<longrightarrow>
            write_borders i a1 b1 c1 res1 ! j = write_borders i a1 b1 c1 res2 ! j"
    proof (intro allI impI)
      fix j
      assume j: "j < length (write_borders i a1 b1 c1 res1)"
        and where_j: "j < Suc i * 3 \<or> (Suc i + length ts) * 3 \<le> j"
      show "write_borders i a1 b1 c1 res1 ! j = write_borders i a1 b1 c1 res2 ! j"
      proof (cases "j = i * 3 \<or> j = i * 3 + 1 \<or> j = i * 3 + 2")
        case True
        with j Cons.prems(1) show ?thesis
          by (auto simp add: write_borders_def)
      next
        case False
        with where_j have "j < i * 3 \<or> (i + length (t # ts)) * 3 \<le> j"
          by auto
        with Cons.prems(2) j have "res1 ! j = res2 ! j"
          by (metis length_write_borders)
        with False show ?thesis
          by (simp add: write_borders_def)
      qed
    qed
  qed
  show ?case
    by (simp add: t step split: sum.splits)
qed

lemma border_loop_np_empty:
  "border_loop corner ts 0 (np_empty g (length ts * 3))
     = border_loop corner ts 0 (np_empty g' (length ts * 3))"
  by (rule border_loop_agree) simp_all

lemma broadcast_rows_length:
  "broadcast_rows n xs = Inr ds \<Longrightarrow> length ds = n"
  by (auto simp add: broadcast_rows_def split: if_splits)

lemma mitter_vectors_value:
  "generate_mitter_vectors g mesh0 mesh1 =
     (case broadcast_rows (length mesh0) mesh1 of
        Inl e \<Rightarrow> Inl e
      | Inr ds \<Rightarrow> Inr (zip mesh0 ds))"
proof (cases "broadcast_rows (length mesh0) mesh1")
  case (Inl e)
  then show ?thesis
    by (simp add: generate_mitter_vectors_def)
next
  case (Inr ds)
  then have len: "length ds = length mesh0"
    by (rule broadcast_rows_length)
  have "set_dirs ds (set_origins mesh0 (np_empty g (length mesh0))) = zip mesh0 ds"
  proof (rule nth_equalityI)
    show "length (set_dirs ds (set_origins mesh0 (np_empty g (length mesh0)))) = length (zip mesh0 ds)"
      using len by simp
  next
    fix i
    assume "i < length (set_dirs ds (set_origins mesh0 (np_empty g (length mesh0))))"
    with len have "i < length mesh0" and "i < length ds"
      by simp_all
    then show "set_dirs ds (set_origins mesh0 (np_empty g (length mesh0))) ! i = zip mesh0 ds ! i"
      by simp
  qed
  with Inr show ?thesis
    by (simp add: generate_mitter_vectors_def)
qed

lemma miter_helper_same_input:
  assumes "a < length h" and "b < length h'" and "h ! a = h' ! b"
  shows "fst (generate_miter_helper_vectors a h) = fst (generate_miter_helper_vectors b h')"
  using assms by (simp add: miter_helper_run Let_def)

lemma orthogonal_same_input:
  assumes "a < length h" and "b < length h'" and "h ! a = h' ! b"
  shows "fst (generate_orthogonal_vectors a h) = fst (generate_orthogonal_vectors b h')"
  using assms by (simp add: orthogonal_run Let_def)

lemma miter_helper_store:
  assumes "a < length h"
  shows "take (length h) (snd (generate_miter_helper_vectors a h)) = h"
  using assms by (simp add: miter_helper_run Let_def)

lemma orthogonal_store:
  assumes "a < length h"
  shows "take (length h) (snd (generate_orthogonal_vectors a h)) = h"
  using assms by (simp add: orthogonal_run Let_def)



subsection \<open>The edge mesh of the specification\<close>

lemma normalize_path_accepts:
  assumes "distinct_adj path" and "(if c then 3 else 2) \<le> length path"
  shows "normalize_path path c = Inr path"
proof -
  from assms(1) have "remdups_adj path = path"
    by (simp add: distinct_adj_altdef)
  with assms(2) show ?thesis
    by (simp add: normalize_path_def)
qed

lemma unit_tangent_pt:
  assumes "p \<noteq> q"
  shows "unit_tangent (pt p) (pt q) = Inr (pt (unit_vector p q))"
proof -
  from assms have "fst q - fst p \<noteq> 0 \<or> snd q - snd p \<noteq> 0"
    by (auto simp add: prod_eq_iff)
  then have "sqrt ((fst q - fst p) * (fst q - fst p) + (snd q - snd p) * (snd q - snd p)) \<noteq> 0"
    by (simp only: norm_pos_iff) blast
  then have "linalg_norm (vsub (pt q) (pt p)) \<noteq> Fin 0"
    by (simp add: vsub_pt linalg_norm_pt)
  with unit_direction [OF assms] show ?thesis
    by (simp add: unit_tangent_def Let_def)
qed

lemma sequence_err_Inr [simp]: "sequence_err (map Inr xs) = Inr xs"
  by (induction xs) simp_all

lemma segment_tangents_pt:
  assumes "distinct_adj ps"
  shows "map2 unit_tangent (butlast (map pt ps)) (tl (map pt ps))
           = map Inr (map2 (\<lambda>p q. pt (unit_vector p q)) (butlast ps) (tl ps))"
proof (rule nth_equalityI)
  show "length (map2 unit_tangent (butlast (map pt ps)) (tl (map pt ps)))
      = length (map Inr (map2 (\<lambda>p q. pt (unit_vector p q)) (butlast ps) (tl ps)))"
    by simp
next
  fix i
  assume "i < length (map2 unit_tangent (butlast (map pt ps)) (tl (map pt ps)))"
  then have i: "i < length ps - 1"
    by simp
  then have "Suc i < length ps"
    by simp
  with assms have "ps ! i \<noteq> ps ! Suc i"
    by (rule distinct_adj_nth)
  with i show "map2 unit_tangent (butlast (map pt ps)) (tl (map pt ps)) ! i
      = map Inr (map2 (\<lambda>p q. pt (unit_vector p q)) (butlast ps) (tl ps)) ! i"
    by (simp add: nth_butlast nth_tl unit_tangent_pt)
qed

lemma tangent_field_pt:
  assumes "distinct_adj ps" and "2 \<le> length ps" and "c \<longrightarrow> ps ! (length ps - 1) \<noteq> ps ! 0"
  shows "\<exists>ts. tangent_field (map pt ps) c = Inr ts \<and> length ts = length ps \<and>
           (\<forall>i. i + 1 < length ps \<longrightarrow> ts ! i = pt (unit_vector (ps ! i) (ps ! (i + 1)))) \<and>
           (c \<longrightarrow> ts ! (length ps - 1) = pt (unit_vector (ps ! (length ps - 1)) (ps ! 0)))"
proof -
  let ?N = "length ps"
  define segs where "segs = map2 (\<lambda>p q. pt (unit_vector p q)) (butlast ps) (tl ps)"
  define final where
    "final = (if c then pt (unit_vector (ps ! (?N - 1)) (ps ! 0)) else vneg (segs ! (length segs - 1)))"
  have seq: "sequence_err (map2 unit_tangent (butlast (map pt ps)) (tl (map pt ps))) = Inr segs"
    by (simp only: segment_tangents_pt [OF assms(1)] sequence_err_Inr segs_def)
  from assms(2) have len: "length segs = ?N - 1" and pos: "0 < ?N"
    by (auto simp add: segs_def)
  have closing: "unit_tangent (map pt ps ! (?N - 1)) (map pt ps ! 0)
                   = Inr (pt (unit_vector (ps ! (?N - 1)) (ps ! 0)))" if c
    using that assms(3) pos by (simp add: unit_tangent_pt)
  have run: "tangent_field (map pt ps) c = Inr (segs @ [final])"
    using closing by (simp add: tangent_field_def seq final_def)
  have inner: "(segs @ [final]) ! i = pt (unit_vector (ps ! i) (ps ! (i + 1)))" if "i + 1 < ?N" for i
  proof -
    from that have "i < ?N - 1"
      by simp
    then show ?thesis
      by (simp add: nth_append len) (simp add: segs_def nth_butlast nth_tl)
  qed
  have last: "(segs @ [final]) ! (?N - 1) = final"
    by (simp add: nth_append len)
  from run len pos inner last show ?thesis
    by (intro exI [of _ "segs @ [final]"]) (auto simp add: final_def)
qed

lemma edge_joins_pt:
  assumes "distinct_adj ps" and "(if c then 3 else 2) \<le> length ps"
    and "c \<longrightarrow> ps ! (length ps - 1) \<noteq> ps ! 0"
  shows "\<exists>ts. edge_joins limit (map pt ps) c = Inr (map pt ps, joins limit ts c) \<and>
           length ts = length ps \<and>
           (\<forall>i. i + 1 < length ps \<longrightarrow> ts ! i = pt (unit_vector (ps ! i) (ps ! (i + 1)))) \<and>
           (c \<longrightarrow> ts ! (length ps - 1) = pt (unit_vector (ps ! (length ps - 1)) (ps ! 0)))"
proof -
  from assms(1) have "distinct_adj (map pt ps)"
    by (simp add: distinct_adj_conv_nth pt_def prod_eq_iff)
  moreover from assms(2) have "(if c then 3 else 2) \<le> length (map pt ps)"
    by simp
  ultimately have norm: "normalize_path (map pt ps) c = Inr (map pt ps)"
    by (rule normalize_path_accepts)
  from assms(2) have "2 \<le> length ps"
    by (simp split: if_splits)
  from tangent_field_pt [OF assms(1) this assms(3)] obtain ts where
    run: "tangent_field (map pt ps) c = Inr ts" and facts: "length ts = length ps"
    "\<forall>i. i + 1 < length ps \<longrightarrow> ts ! i = pt (unit_vector (ps ! i) (ps ! (i + 1)))"
    "c \<longrightarrow> ts ! (length ps - 1) = pt (unit_vector (ps ! (length ps - 1)) (ps ! 0))"
    by blast
  from norm run have "edge_joins limit (map pt ps) c = Inr (map pt ps, joins limit ts c)"
    by (simp add: edge_joins_def)
  with facts show ?thesis
    by blast
qed

lemma length_joins [simp]: "length (joins limit ts c) = length ts"
  by (simp add: joins_def)

lemma nth_joins: "i < length ts \<Longrightarrow> joins limit ts c ! i = join_at limit ts c i"
  by (simp add: joins_def)

lemma length_segment_triangles [simp]: "length (segment_triangles js i j) = 2"
  by (simp add: segment_triangles_def Let_def)

lemma length_segment_part:
  "length (concat (map (\<lambda>i. segment_triangles js i (Suc i)) xs)) = 2 * length xs"
  by (induction xs) simp_all

lemma length_bevel_part:
  "length (concat (map (bevel_triangles js) [0..<length js])) = length (filter is_bevel js)"
proof -
  have "length (concat (map (bevel_triangles js) xs))
          = length (filter is_bevel (map ((!) js) xs))" for xs
    by (induction xs) (simp_all add: bevel_triangles_def)
  from this [of "[0..<length js]"] show ?thesis
    by (simp add: map_nth)
qed

lemma length_join_group [simp]: "length (join_group p j) = group_size j"
  by (cases j) simp_all

lemma group_size_bevel: "group_size j = 2 + (if is_bevel j then 1 else 0)"
  by (cases j) simp_all

lemma length_rows:
  "length ps = length js \<Longrightarrow>
   length (concat (map2 join_group ps js)) = 2 * length js + length (filter is_bevel js)"
  by (induction ps js rule: list_induct2) (simp_all add: group_size_bevel)

lemma assemble_counts:
  assumes "length ps = length js" and "0 < length ps"
  shows "length (mesh_triangles (assemble ps js c))
           = 2 * segment_count (length ps) c + length (filter is_bevel js)"
    and "length (mesh_vertices (assemble ps js c)) = 2 * length ps + length (filter is_bevel js)"
    and "length (mesh_offsets (assemble ps js c)) = 2 * length ps + length (filter is_bevel js)"
proof -
  let ?N = "length ps"
  let ?segs = "concat (map (\<lambda>i. segment_triangles js i (i + 1)) [0..<?N - 1])"
  let ?wrap = "if c then segment_triangles js (?N - 1) 0 else []"
  let ?bevels = "concat (map (bevel_triangles js) [0..<?N])"
  have tri: "mesh_triangles (assemble ps js c) = ?segs @ ?wrap @ ?bevels"
    by (simp add: assemble_def Let_def)
  have "length ?segs = 2 * (?N - 1)"
    using length_segment_part [of js "[0..<?N - 1]"] by simp
  moreover have "length ?wrap = (if c then 2 else 0)"
    by simp
  moreover have "length ?bevels = length (filter is_bevel js)"
    using length_bevel_part [of js] assms(1) by simp
  moreover from assms(2) have "2 * (?N - 1) + (if c then 2 else 0) = 2 * segment_count ?N c"
    by (cases ?N) (simp_all add: segment_count_def)
  ultimately have "length (?segs @ ?wrap @ ?bevels)
      = 2 * segment_count ?N c + length (filter is_bevel js)"
    by (simp only: length_append)
  with tri show "length (mesh_triangles (assemble ps js c))
           = 2 * segment_count (length ps) c + length (filter is_bevel js)"
    by simp
  from assms show "length (mesh_vertices (assemble ps js c))
           = 2 * length ps + length (filter is_bevel js)"
    by (simp add: assemble_def Let_def length_rows)
  from assms show "length (mesh_offsets (assemble ps js c))
           = 2 * length ps + length (filter is_bevel js)"
    by (simp add: assemble_def Let_def length_rows)
qed

lemma prev_mod: "0 < i \<Longrightarrow> i < N \<Longrightarrow> (i + N - 1) mod N = i - (1::nat)"
  by (cases i) simp_all

lemma join_at_interior:
  assumes len: "length ts = length ps"
    and inner: "\<forall>i. i + 1 < length ps \<longrightarrow> ts ! i = pt (unit_vector (ps ! i) (ps ! (i + 1)))"
    and wrap: "c \<longrightarrow> ts ! (length ps - 1) = pt (unit_vector (ps ! (length ps - 1)) (ps ! 0))"
    and i: "if c then i < length ps else 0 < i \<and> i + 1 < length ps"
  shows "join_at limit ts c i =
           resolve_join limit
             (rot90 (pt (unit_vector (ps ! ((i + length ps - 1) mod length ps)) (ps ! i))))
             (rot90 (pt (unit_vector (ps ! i) (ps ! ((i + 1) mod length ps)))))"
proof -
  let ?N = "length ps"
  from i have iN: "i < ?N"
    by (simp split: if_splits)
  have out: "ts ! i = pt (unit_vector (ps ! i) (ps ! ((i + 1) mod ?N)))" if "c \<or> i + 1 < ?N"
  proof (cases "i + 1 < ?N")
    case True
    with inner show ?thesis
      by simp
  next
    case False
    with iN have last: "i = ?N - 1" and "i + 1 = ?N"
      by auto
    then have "(i + 1) mod ?N = 0"
      by simp
    with that False wrap last show ?thesis
      by simp
  qed
  have inc: "ts ! ((i + ?N - 1) mod ?N) = pt (unit_vector (ps ! ((i + ?N - 1) mod ?N)) (ps ! i))"
    if "c \<or> 0 < i"
  proof (cases i)
    case 0
    with iN have "(i + ?N - 1) mod ?N = ?N - 1"
      by simp
    with 0 that wrap show ?thesis
      by simp
  next
    case (Suc k)
    with iN have prev: "(i + ?N - 1) mod ?N = k"
      by simp
    from Suc iN have "k + 1 < ?N"
      by simp
    with inner have "ts ! k = pt (unit_vector (ps ! k) (ps ! (k + 1)))"
      by blast
    with prev Suc show ?thesis
      by simp
  qed
  show ?thesis
  proof (cases c)
    case True
    with out inc show ?thesis
      by (simp add: join_at_def Let_def len)
  next
    case False
    with i have "0 < i" and "i + 1 < ?N"
      by simp_all
    then have "i \<noteq> 0" and "i \<noteq> ?N - 1"
      by auto
    moreover from \<open>0 < i\<close> iN have "(i + ?N - 1) mod ?N = i - 1"
      by (rule prev_mod)
    moreover note False out inc \<open>0 < i\<close> \<open>i + 1 < ?N\<close>
    ultimately show ?thesis
      by (simp add: join_at_def Let_def len)
  qed
qed

lemma edge_mesh_pt:
  assumes "distinct_adj ps" and "(if c then 3 else 2) \<le> length ps"
    and "c \<longrightarrow> ps ! (length ps - 1) \<noteq> ps ! 0"
  shows "\<exists>ts. edge_joins limit (map pt ps) c = Inr (map pt ps, joins limit ts c) \<and>
           generate_2D_edge_meshes limit (map pt ps) c
             = Inr (assemble (map pt ps) (joins limit ts c) c) \<and>
           length ts = length ps \<and>
           (\<forall>i. i + 1 < length ps \<longrightarrow> ts ! i = pt (unit_vector (ps ! i) (ps ! (i + 1)))) \<and>
           (c \<longrightarrow> ts ! (length ps - 1) = pt (unit_vector (ps ! (length ps - 1)) (ps ! 0)))"
proof -
  from edge_joins_pt [OF assms, of limit] obtain ts where
    run: "edge_joins limit (map pt ps) c = Inr (map pt ps, joins limit ts c)"
    and facts: "length ts = length ps"
      "\<forall>i. i + 1 < length ps \<longrightarrow> ts ! i = pt (unit_vector (ps ! i) (ps ! (i + 1)))"
      "c \<longrightarrow> ts ! (length ps - 1) = pt (unit_vector (ps ! (length ps - 1)) (ps ! 0))"
    by blast
  from run have "generate_2D_edge_meshes limit (map pt ps) c
             = Inr (assemble (map pt ps) (joins limit ts c) c)"
    by (simp add: generate_2D_edge_meshes_def)
  with run facts show ?thesis
    by blast
qed

text \<open>
  Claim C5, amended (against the edge mesh modelled from the specification). For a path of
  \<open>N\<close> points with finite coordinates that the normalizer accepts unchanged (no two
  consecutive points coincident, \<open>N \<ge> 2\<close> if open and \<open>N \<ge> 3\<close> if closed, the last point
  different from the first if closed), \<open>generate_2D_edge_meshes\<close> returns a mesh with
  \<open>2 * segment_count\<close> triangles plus one for every join that falls back to a bevel,
  where \<open>segment_count\<close> is \<open>N\<close> when closed and \<open>N - 1\<close> when open.
\<close>

theorem edge_mesh_triangle_count:
  assumes "distinct_adj ps" and "(if c then 3 else 2) \<le> length ps"
    and "c \<longrightarrow> ps ! (length ps - 1) \<noteq> ps ! 0"
  shows "\<exists>mesh js. edge_joins limit (map pt ps) c = Inr (map pt ps, js) \<and>
           generate_2D_edge_meshes limit (map pt ps) c = Inr mesh \<and>
           length (mesh_triangles mesh)
             = 2 * segment_count (length ps) c + length (filter is_bevel js)"
proof -
  from edge_mesh_pt [OF assms, of limit] obtain ts where
    joins: "edge_joins limit (map pt ps) c = Inr (map pt ps, joins limit ts c)"
    and run: "generate_2D_edge_meshes limit (map pt ps) c
             = Inr (assemble (map pt ps) (joins limit ts c) c)"
    and len: "length ts = length ps"
    by blast
  from assms(2) have pos: "0 < length (map pt ps)"
    by (auto split: if_splits)
  from len have same: "length (map pt ps) = length (joins limit ts c)"
    by simp
  from assemble_counts(1) [OF same pos, of c]
  have "length (mesh_triangles (assemble (map pt ps) (joins limit ts c) c))
          = 2 * segment_count (length ps) c + length (filter is_bevel (joins limit ts c))"
    by simp
  with joins run show ?thesis
    by blast
qed

theorem edge_mesh_triangle_count_witness:
  "\<exists>mesh js. edge_joins 2 (map pt [(0, 0), (1, 0), (1, 1)]) False
                 = Inr (map pt [(0, 0), (1, 0), (1, 1)], js) \<and>
      generate_2D_edge_meshes 2 (map pt [(0, 0), (1, 0), (1, 1)]) False = Inr mesh \<and>
      length (mesh_triangles mesh) = 2 * segment_count 3 False + length (filter is_bevel js)"
proof -
  let ?ps = "[(0, 0), (1, 0), (1, 1)] :: (real \<times> real) list"
  have h1: "distinct_adj ?ps"
    by simp
  have h2: "(if False then 3 else 2) \<le> length ?ps"
    by simp
  have h3: "False \<longrightarrow> ?ps ! (length ?ps - 1) \<noteq> ?ps ! 0"
    by simp
  from edge_mesh_triangle_count [OF h1 h2 h3, of 2] show ?thesis
    by (simp add: numeral_3_eq_3)
qed

lemma two_less_sqrt_10: "2 < sqrt 10"
  by (rule real_less_rsqrt) simp

lemma bent_path_joins:
  "edge_joins 2 (map pt [(0, 0), (1, 0), (- 3, 3)]) False =
     Inr (map pt [(0, 0), (1, 0), (- 3, 3)],
          [Miter (pt (0, 1)), Bevel (pt (0, 1)) (pt (- (3 / 5), - (4 / 5))), Miter (pt (- (3 / 5), - (4 / 5)))])"
proof -
  have t: "tangent_field (map pt [(0, 0), (1, 0), (- 3, 3)]) False
             = Inr [pt (1, 0), pt (- (4 / 5), 3 / 5), pt (4 / 5, - (3 / 5))]"
    by (simp add: tangent_field_def unit_tangent_def vsub_def fl_sub_def vdiv_def vneg_def
          linalg_norm_def vdot_def pt_def sqrt_25)
  have n: "normalize_path (map pt [(0, 0), (1, 0), (- 3, 3)]) False
             = Inr (map pt [(0, 0), (1, 0), (- 3, 3)])"
    by (simp add: normalize_path_def pt_def)
  have off: "miter_offset (pt (0, 1)) (pt (- (3 / 5), - (4 / 5))) = pt (- 3, 1)"
    by (simp add: miter_offset_def vadd_def vdot_def vdiv_def pt_def)
  have "linalg_norm (pt (- 3, 1)) = Fin (sqrt 10)"
    by (simp add: linalg_norm_pt)
  with off have bevel: "resolve_join 2 (pt (0, 1)) (pt (- (3 / 5), - (4 / 5)))
                  = Bevel (pt (0, 1)) (pt (- (3 / 5), - (4 / 5)))"
    by (simp add: resolve_join_def two_less_sqrt_10)
  have r: "rot90 (pt (1, 0)) = pt (0, 1)" "rot90 (pt (- (4 / 5), 3 / 5)) = pt (- (3 / 5), - (4 / 5))"
    by (simp_all add: rot90_def pt_def)
  have "joins 2 [pt (1, 0), pt (- (4 / 5), 3 / 5), pt (4 / 5, - (3 / 5))] False
          = [Miter (pt (0, 1)), Bevel (pt (0, 1)) (pt (- (3 / 5), - (4 / 5))), Miter (pt (- (3 / 5), - (4 / 5)))]"
    by (simp add: joins_def join_at_def numeral_3_eq_3 r bevel)
  with t n show ?thesis
    by (simp add: edge_joins_def)
qed

text \<open>
  Claim C5 as stated: with the recommended multiplier 2 the open path
  \<open>(0,0), (1,0), (-3,3)\<close> turns by more than 120 degrees at its middle point, the join is
  a bevel, and the mesh has 5 triangles for 2 segments.
\<close>

theorem edge_mesh_bevel_counterexample:
  "triangle_count (generate_2D_edge_meshes 2 (map pt [(0, 0), (1, 0), (- 3, 3)]) False) = Inr 5 \<and>
   2 * segment_count 3 False = 4"
proof -
  let ?ps = "map pt [(0, 0), (1, 0), (- 3, 3)]"
  let ?js = "[Miter (pt (0, 1)), Bevel (pt (0, 1)) (pt (- (3 / 5), - (4 / 5))), Miter (pt (- (3 / 5), - (4 / 5)))]"
  have same: "length ?ps = length ?js" and pos: "0 < length ?ps"
    by simp_all
  from assemble_counts(1) [OF same pos, of False]
  have "length (mesh_triangles (assemble ?ps ?js False)) = 5"
    by (simp add: segment_count_def)
  moreover have "generate_2D_edge_meshes 2 ?ps False = Inr (assemble ?ps ?js False)"
    by (simp only: generate_2D_edge_meshes_def bent_path_joins sum.case prod.case)
  ultimately show ?thesis
    by (simp add: triangle_count_def segment_count_def)
qed

lemma base_index_Cons: "base_index (j # js) (Suc i) = group_size j + base_index js i"
  by (simp add: base_index_def)

lemma group_rows:
  assumes "length ps = length js" and "i < length js"
  shows "take (group_size (js ! i)) (drop (base_index js i) (concat (map2 join_group ps js)))
           = join_group (ps ! i) (js ! i)"
  using assms
proof (induction ps js arbitrary: i rule: list_induct2)
  case Nil
  then show ?case
    by simp
next
  case (Cons p ps j js)
  show ?case
  proof (cases i)
    case 0
    then show ?thesis
      by (simp add: base_index_def)
  next
    case (Suc k)
    with Cons.prems have "k < length js"
      by simp
    from Cons.IH [OF this] Suc show ?thesis
      by (simp add: base_index_Cons)
  qed
qed

lemma bevel_triangle_member:
  assumes "i < length ps" and "is_bevel (js ! i)"
  shows "(base_index js i, base_index js i + 1, base_index js i + 2)
           \<in> set (mesh_triangles (assemble ps js c))"
proof -
  from assms(2) have "(base_index js i, base_index js i + 1, base_index js i + 2)
      \<in> set (bevel_triangles js i)"
    by (simp add: bevel_triangles_def)
  moreover from assms(1) have "i \<in> set [0..<length ps]"
    by simp
  ultimately have "(base_index js i, base_index js i + 1, base_index js i + 2)
      \<in> set (concat (map (bevel_triangles js) [0..<length ps]))"
    unfolding set_concat by (intro UN_I [of "bevel_triangles js i"]) auto
  then show ?thesis
    by (simp add: assemble_def Let_def)
qed

lemma assemble_rows:
  "zip (mesh_vertices (assemble ps js c)) (mesh_offsets (assemble ps js c))
     = concat (map2 join_group ps js)"
  by (simp add: assemble_def Let_def zip_map_fst_snd)



end
